theory Spec2Isabelle
  imports Main "HOL-Library.Word" "HOL-Library.Sublist"
begin

section \<open>The Garbler of circuit/garbler.go\<close>

text \<open>
  The Go function \<^verbatim>\<open>Garbler(conn, circ, inputs, key, verbose)\<close> garbles a circuit, streams
  the garbled tables and its own input labels to the peer, publishes the key of the
  oblivious-transfer sender and then serves the peer's requests until the result
  arrives. The embedding passes the connection explicitly and returns it together with
  what the function returns. Printing and time measurement (\<^verbatim>\<open>verbose\<close>, \<^verbatim>\<open>size\<close>,
  \<^verbatim>\<open>start\<close>, \<^verbatim>\<open>last\<close>, \<^verbatim>\<open>lastOT\<close>) have no effect on the connection or the result and are
  left out.
\<close>

subsection \<open>Data\<close>

type_synonym byte = "8 word"
type_synonym bytes = "byte list"

text \<open>
  Go errors are values. \<^verbatim>\<open>UnknownLabel label i\<close> is the error built by
  \<^verbatim>\<open>fmt.Errorf("Unknown label %x for result %d", label, i)\<close>; the other constructors are
  the error kinds of the collaborators (garbling, oblivious transfer, transport).
\<close>

datatype error =
    InvalidCircuit
  | GarbleFailed
  | EvalFailed
  | OTFailed
  | TransportClosed
  | ProtocolError
  | UnknownLabel bytes nat

text \<open>
  What a call of \<^verbatim>\<open>Garbler\<close> does in the end: it returns the Go pair
  \<^verbatim>\<open>([]*big.Int, error)\<close>, where \<open>None\<close> is \<^verbatim>\<open>nil\<close>, or it panics (an index outside a
  slice).
\<close>

datatype outcome =
    Returned "int list option" "error option"
  | Panicked

text \<open>
  Modelled from the spec: the declarations of \<^verbatim>\<open>Wire\<close>, \<^verbatim>\<open>IO\<close>, \<^verbatim>\<open>Circuit\<close> and
  \<^verbatim>\<open>Garbled\<close> are not part of the sources at hand. A wire holds its two labels, given
  here as the byte strings that \<^verbatim>\<open>Label0.Bytes()\<close> and \<^verbatim>\<open>Label1.Bytes()\<close> return; an
  I/O group has a bit width; the garbled circuit is \<open>(Wires[], GateTables[])\<close>, both
  indexed by dense integers, the gate tables in gate order.
\<close>

record Wire =
  Label0 :: bytes
  Label1 :: bytes

record IOArg =
  Size :: nat

type_synonym IO = "IOArg list"

record Circuit =
  NumWires :: int
  N1 :: IO
  N2 :: IO
  N3 :: IO

record Garbled =
  Wires :: "Wire list"
  Gates :: "bytes list list"

text \<open>
  Modelled from the spec: \<^verbatim>\<open>IO.Size()\<close> is the number of wires of a partition, the sum of
  the widths of its groups.
\<close>

definition IO_Size :: "IO \<Rightarrow> nat" where
  "IO_Size io = sum_list (map Size io)"

text \<open>
  Modelled from the spec: \<^verbatim>\<open>IO.Split\<close> decodes a packed little-endian integer into one
  value per declared group, each of the declared bit width.
\<close>

fun Split :: "IO \<Rightarrow> int \<Rightarrow> int list" where
  "Split [] r = []"
| "Split (a # as) r = take_bit (Size a) r # Split as (drop_bit (Size a) r)"

text \<open>Reading a slice: Go panics outside \<open>[0, len)\<close>.\<close>

definition wire_at :: "Wire list \<Rightarrow> int \<Rightarrow> Wire option" where
  "wire_at ws i = (if 0 \<le> i \<and> i < int (length ws) then Some (ws ! nat i) else None)"

text \<open>
  \<^verbatim>\<open>big.Int\<close>: \<^verbatim>\<open>x.Bit(i)\<close> is \<open>bit x i\<close>; \<^verbatim>\<open>SetBit(x, i, b)\<close> is \<open>x\<close> with bit \<open>i\<close> set to
  \<open>b\<close>; \<^verbatim>\<open>x.Bytes()\<close> is the big-endian magnitude without leading zeros.
\<close>

definition SetBit :: "int \<Rightarrow> nat \<Rightarrow> nat \<Rightarrow> int" where
  "SetBit x i b = (if b = 0 then unset_bit i x else set_bit i x)"

fun nat_bytes :: "nat \<Rightarrow> bytes" where
  "nat_bytes n = (if n = 0 then [] else nat_bytes (n div 256) @ [of_nat (n mod 256)])"

declare nat_bytes.simps [simp del]

definition BigInt_Bytes :: "int \<Rightarrow> bytes" where
  "BigInt_Bytes x = nat_bytes (nat \<bar>x\<bar>)"

subsection \<open>The connection\<close>

text \<open>
  What happened on the connection, in program order: the values sent and received by
  the four framing helpers and the flushes. A send or receive that fails leaves no
  entry (the caller returns at once); a flush that fails leaves \<open>FlushError\<close>, because
  the caller goes on.
\<close>

datatype event =
    SendUint32 nat
  | SendData bytes
  | RecvUint32 nat
  | RecvData bytes
  | Flush
  | FlushError

text \<open>
  The connection: the bytes the peer sends (\<open>inb\<close>), the record of operations so far
  (\<open>trace\<close>), and the fate of the coming operations of the writer (\<open>wfail\<close>, one entry per
  send or flush, \<open>True\<close> for a failure, none left for success).
\<close>

record Conn =
  inb :: bytes
  trace :: "event list"
  wfail :: "bool list"

definition write_fails :: "Conn \<Rightarrow> bool" where
  "write_fails c = (case wfail c of [] \<Rightarrow> False | f # fs \<Rightarrow> f)"

definition written :: "Conn \<Rightarrow> Conn" where
  "written c = c\<lparr>wfail := tl (wfail c)\<rparr>"

text \<open>
  Modelled from the spec: the helpers \<^verbatim>\<open>sendUint32\<close>, \<^verbatim>\<open>sendData\<close>, \<^verbatim>\<open>receiveUint32\<close> and
  \<^verbatim>\<open>receiveData\<close> are not part of the sources at hand. An integer travels as 4 bytes
  big-endian, a byte string as its length (4 bytes big-endian) and then its bytes; a
  read that cannot be completed and a write that fails give \<open>TransportClosed\<close>.
\<close>

definition sendUint32 :: "Conn \<Rightarrow> nat \<Rightarrow> error option \<times> Conn" where
  "sendUint32 c v =
     (if write_fails c then (Some TransportClosed, written c)
      else (None, (written c)\<lparr>trace := trace c @ [SendUint32 v]\<rparr>))"

definition sendData :: "Conn \<Rightarrow> bytes \<Rightarrow> error option \<times> Conn" where
  "sendData c d =
     (if write_fails c then (Some TransportClosed, written c)
      else (None, (written c)\<lparr>trace := trace c @ [SendData d]\<rparr>))"

definition be_uint32 :: "bytes \<Rightarrow> nat" where
  "be_uint32 bs = foldl (\<lambda>a b. a * 256 + unat b) 0 bs"

definition read_u32 :: "bytes \<Rightarrow> (nat \<times> bytes) option" where
  "read_u32 bs = (if length bs < 4 then None else Some (be_uint32 (take 4 bs), drop 4 bs))"

definition receiveUint32 :: "Conn \<Rightarrow> (error + nat) \<times> Conn" where
  "receiveUint32 c =
     (case read_u32 (inb c) of
        None \<Rightarrow> (Inl TransportClosed, c)
      | Some (v, rest) \<Rightarrow> (Inr v, c\<lparr>inb := rest, trace := trace c @ [RecvUint32 v]\<rparr>))"

definition receiveData :: "Conn \<Rightarrow> (error + bytes) \<times> Conn" where
  "receiveData c =
     (case read_u32 (inb c) of
        None \<Rightarrow> (Inl TransportClosed, c)
      | Some (n, rest) \<Rightarrow>
          if length rest < n then (Inl TransportClosed, c)
          else (Inr (take n rest),
                c\<lparr>inb := drop n rest, trace := trace c @ [RecvData (take n rest)]\<rparr>))"

text \<open>\<^verbatim>\<open>conn.Flush()\<close> of \<^verbatim>\<open>bufio.ReadWriter\<close>: it returns an error when the write fails.\<close>

definition Flush_conn :: "Conn \<Rightarrow> error option \<times> Conn" where
  "Flush_conn c =
     (if write_fails c then (Some TransportClosed, (written c)\<lparr>trace := trace c @ [FlushError]\<rparr>)
      else (None, (written c)\<lparr>trace := trace c @ [Flush]\<rparr>))"

text \<open>Modelled from the spec: the opcodes, \<^verbatim>\<open>OP_OT\<close> with value 1 and \<^verbatim>\<open>OP_RESULT\<close> with value 2.\<close>

definition OP_OT :: nat where
  "OP_OT = 1"

definition OP_RESULT :: nat where
  "OP_RESULT = 2"

subsection \<open>The collaborators\<close>

text \<open>
  \<^verbatim>\<open>circ.Garble\<close> and the package \<^verbatim>\<open>ot\<close> are not part of the sources at hand, and both
  draw random numbers. The embedding takes them as parameters: \<open>'s\<close> is the state of
  the sender, \<open>'x\<close> that of one transfer. \<open>NewTransfer\<close> returns the sender as well, so
  that a sender which changes with every transfer is covered.
\<close>

record ('s, 'x) Env =
  Garble :: "Circuit \<Rightarrow> bytes \<Rightarrow> error + Garbled"
  NewSender :: "nat \<Rightarrow> Wire list \<Rightarrow> error + 's"
  PublicKey :: "'s \<Rightarrow> bytes \<times> nat"
  NewTransfer :: "'s \<Rightarrow> nat \<Rightarrow> error + ('x \<times> 's)"
  RandomMessages :: "'x \<Rightarrow> bytes \<times> bytes"
  ReceiveV :: "'x \<Rightarrow> bytes \<Rightarrow> 'x"
  Messages :: "'x \<Rightarrow> error + (bytes \<times> bytes)"

subsection \<open>Sending the garbled tables and the inputs\<close>

text \<open>The loop \<^verbatim>\<open>for _, d := range data\<close>, also the loop \<^verbatim>\<open>for idx, i := range n1\<close>.\<close>

fun send_rows :: "Conn \<Rightarrow> bytes list \<Rightarrow> error option \<times> Conn" where
  "send_rows c [] = (None, c)"
| "send_rows c (d # ds) =
     (case sendData c d of
        (Some e, c1) \<Rightarrow> (Some e, c1)
      | (None, c1) \<Rightarrow> send_rows c1 ds)"

text \<open>The loop \<^verbatim>\<open>for id, data := range garbled.Gates\<close>, from gate \<open>gid\<close> (the \<^verbatim>\<open>id\<close> of the source) on.\<close>

fun send_tables :: "Conn \<Rightarrow> nat \<Rightarrow> bytes list list \<Rightarrow> error option \<times> Conn" where
  "send_tables c gid [] = (None, c)"
| "send_tables c gid (data # gates) =
     (case sendUint32 c gid of
        (Some e, c1) \<Rightarrow> (Some e, c1)
      | (None, c1) \<Rightarrow>
          (case sendUint32 c1 (length data) of
             (Some e, c2) \<Rightarrow> (Some e, c2)
           | (None, c2) \<Rightarrow>
               (case send_rows c2 data of
                  (Some e, c3) \<Rightarrow> (Some e, c3)
                | (None, c3) \<Rightarrow> send_tables c3 (Suc gid) gates)))"

text \<open>
  The inner loop \<^verbatim>\<open>for i := 0; i < io.Size; i++\<close> of the selection of the inputs, with
  \<open>n\<close> rounds to go: wire \<open>w\<close> gives the label for bit \<open>i\<close> of \<open>input\<close>. \<open>None\<close> is the
  panic of \<^verbatim>\<open>garbled.Wires[w]\<close>.
\<close>

definition select_label :: "Wire \<Rightarrow> int option \<Rightarrow> nat \<Rightarrow> bytes" where
  "select_label wire input i =
     (if input \<noteq> None \<and> bit (the input) i then Label1 wire else Label0 wire)"

fun select_bits :: "Wire list \<Rightarrow> int option \<Rightarrow> nat \<Rightarrow> nat \<Rightarrow> nat \<Rightarrow> bytes list option" where
  "select_bits ws input w i 0 = Some []"
| "select_bits ws input w i (Suc n) =
     (case wire_at ws (int w) of
        None \<Rightarrow> None
      | Some wire \<Rightarrow>
          (case select_bits ws input (Suc w) (Suc i) n of
             None \<Rightarrow> None
           | Some ls \<Rightarrow> Some (select_label wire input i # ls)))"

text \<open>The outer loop \<^verbatim>\<open>for idx, io := range circ.N1\<close>, from group \<open>idx\<close> and wire \<open>w\<close> on.\<close>

fun select_inputs :: "Wire list \<Rightarrow> int option list \<Rightarrow> nat \<Rightarrow> nat \<Rightarrow> IO \<Rightarrow> bytes list option" where
  "select_inputs ws inputs idx w [] = Some []"
| "select_inputs ws inputs idx w (io # ios) =
     (case select_bits ws (if idx < length inputs then inputs ! idx else None) w 0 (Size io) of
        None \<Rightarrow> None
      | Some ls \<Rightarrow>
          (case select_inputs ws inputs (Suc idx) (w + Size io) ios of
             None \<Rightarrow> None
           | Some rest \<Rightarrow> Some (ls @ rest)))"

subsection \<open>The message loop\<close>

text \<open>
  The body of \<^verbatim>\<open>case OP_OT\<close>. \<open>Inl e\<close> is \<^verbatim>\<open>return nil, e\<close>; \<open>Inr\<close> gives the sender after
  the round. The result of \<^verbatim>\<open>conn.Flush()\<close> is dropped, as in the source.
\<close>

definition handle_OT :: "('s, 'x) Env \<Rightarrow> 's \<Rightarrow> Conn \<Rightarrow> (error + 's) \<times> Conn" where
  "handle_OT env sender c =
     (case receiveUint32 c of
        (Inl e, c1) \<Rightarrow> (Inl e, c1)
      | (Inr b, c1) \<Rightarrow>
     (case NewTransfer env sender b of
        Inl e \<Rightarrow> (Inl e, c1)
      | Inr (xfer, sender') \<Rightarrow>
     (case RandomMessages env xfer of (x0, x1) \<Rightarrow>
     (case sendData c1 x0 of
        (Some e, c2) \<Rightarrow> (Inl e, c2)
      | (None, c2) \<Rightarrow>
     (case sendData c2 x1 of
        (Some e, c3) \<Rightarrow> (Inl e, c3)
      | (None, c3) \<Rightarrow>
     (case receiveData (snd (Flush_conn c3)) of
        (Inl e, c4) \<Rightarrow> (Inl e, c4)
      | (Inr v, c4) \<Rightarrow>
     (case Messages env (ReceiveV env xfer v) of
        Inl e \<Rightarrow> (Inl e, c4)
      | Inr (m0p, m1p) \<Rightarrow>
     (case sendData c4 m0p of
        (Some e, c5) \<Rightarrow> (Inl e, c5)
      | (None, c5) \<Rightarrow>
     (case sendData c5 m1p of
        (Some e, c6) \<Rightarrow> (Inl e, c6)
      | (None, c6) \<Rightarrow> (Inr sender', snd (Flush_conn c6)))))))))))"

text \<open>
  The choice of \<^verbatim>\<open>bit\<close> in \<^verbatim>\<open>case OP_RESULT\<close>: 0 when the label is \<^verbatim>\<open>Label0\<close> of the
  wire, else 1 when it is \<^verbatim>\<open>Label1\<close>, else none (the source returns an error).
\<close>

definition decode_label :: "Wire \<Rightarrow> bytes \<Rightarrow> nat option" where
  "decode_label wire label =
     (if label = Label0 wire then Some 0
      else if label = Label1 wire then Some 1
      else None)"

text \<open>
  The loop \<^verbatim>\<open>for i := 0; i < circ.N3.Size(); i++\<close> of \<^verbatim>\<open>case OP_RESULT\<close>, at index \<open>i\<close>
  with \<open>n\<close> rounds to go. \<open>Inl out\<close> leaves the function with \<open>out\<close>; \<open>Inr\<close> gives the
  integer assembled.
\<close>

definition output_wire :: "Circuit \<Rightarrow> Garbled \<Rightarrow> nat \<Rightarrow> Wire option" where
  "output_wire circ garbled i =
     wire_at (Wires garbled) (NumWires circ - int (IO_Size (N3 circ)) + int i)"

fun decode_outputs :: "Circuit \<Rightarrow> Garbled \<Rightarrow> Conn \<Rightarrow> nat \<Rightarrow> nat \<Rightarrow> int \<Rightarrow> (outcome + int) \<times> Conn" where
  "decode_outputs circ garbled c i 0 result = (Inr result, c)"
| "decode_outputs circ garbled c i (Suc n) result =
     (case receiveData c of
        (Inl e, c1) \<Rightarrow> (Inl (Returned None (Some e)), c1)
      | (Inr label, c1) \<Rightarrow>
          (case output_wire circ garbled i of
             None \<Rightarrow> (Inl Panicked, c1)
           | Some wire \<Rightarrow>
               (case decode_label wire label of
                  None \<Rightarrow> (Inl (Returned None (Some (UnknownLabel label i))), c1)
                | Some b \<Rightarrow> decode_outputs circ garbled c1 (Suc i) n (SetBit result i b))))"

text \<open>The body of \<^verbatim>\<open>case OP_RESULT\<close> and the return after the loop.\<close>

definition handle_RESULT :: "Circuit \<Rightarrow> Garbled \<Rightarrow> Conn \<Rightarrow> outcome \<times> Conn" where
  "handle_RESULT circ garbled c =
     (case decode_outputs circ garbled c 0 (IO_Size (N3 circ)) 0 of
        (Inl out, c1) \<Rightarrow> (out, c1)
      | (Inr result, c1) \<Rightarrow>
          (case sendData c1 (BigInt_Bytes result) of
             (Some e, c2) \<Rightarrow> (Returned None (Some e), c2)
           | (None, c2) \<Rightarrow>
               (Returned (Some (Split (N3 circ) result)) None, snd (Flush_conn c2))))"

lemma sendData_inb: "inb (snd (sendData c d)) = inb c"
  by (simp add: sendData_def written_def)

lemma Flush_conn_inb: "inb (snd (Flush_conn c)) = inb c"
  by (simp add: Flush_conn_def written_def)

lemma receiveUint32_inb:
  "receiveUint32 c = (Inr v, c') \<Longrightarrow> length (inb c') < length (inb c)"
  by (auto simp: receiveUint32_def read_u32_def split: option.splits if_splits)

lemma receiveUint32_inb_le: "length (inb (snd (receiveUint32 c))) \<le> length (inb c)"
  by (auto simp: receiveUint32_def read_u32_def split: option.splits if_splits)

lemma receiveData_inb_le: "length (inb (snd (receiveData c))) \<le> length (inb c)"
  by (auto simp: receiveData_def read_u32_def split: option.splits if_splits)

lemma handle_OT_inb_le: "length (inb (snd (handle_OT env sender c))) \<le> length (inb c)"
proof -
  have send: "\<And>c d. length (inb (snd (sendData c d))) = length (inb c)"
    by (simp add: sendData_inb)
  have flush: "\<And>c. length (inb (snd (Flush_conn c))) = length (inb c)"
    by (simp add: Flush_conn_inb)
  have recv: "\<And>c r c'. receiveData c = (r, c') \<Longrightarrow> length (inb c') \<le> length (inb c)"
    using receiveData_inb_le by (metis snd_conv)
  have recv32: "\<And>c r c'. receiveUint32 c = (r, c') \<Longrightarrow> length (inb c') \<le> length (inb c)"
    using receiveUint32_inb_le by (metis snd_conv)
  have send': "\<And>c d r c'. sendData c d = (r, c') \<Longrightarrow> length (inb c') = length (inb c)"
    using send by (metis snd_conv)
  show ?thesis
    unfolding handle_OT_def
    by (auto split: prod.splits sum.splits option.splits
             dest!: recv recv32 send' simp: flush)
qed

text \<open>
  The loop \<^verbatim>\<open>for !done\<close>. The \<^verbatim>\<open>switch\<close> has the two cases \<^verbatim>\<open>OP_OT\<close> and
  \<^verbatim>\<open>OP_RESULT\<close> and no \<^verbatim>\<open>default\<close>: after any other opcode the loop reads the next
  one. Every round reads an opcode, so the loop ends when the peer's bytes do.
\<close>

function msg_loop :: "('s, 'x) Env \<Rightarrow> Circuit \<Rightarrow> Garbled \<Rightarrow> 's \<Rightarrow> Conn \<Rightarrow> outcome \<times> Conn" where
  "msg_loop env circ garbled sender c =
     (case receiveUint32 c of
        (Inl e, c1) \<Rightarrow> (Returned None (Some e), c1)
      | (Inr op, c1) \<Rightarrow>
          if op = OP_OT then
            (case handle_OT env sender c1 of
               (Inl e, c2) \<Rightarrow> (Returned None (Some e), c2)
             | (Inr sender', c2) \<Rightarrow> msg_loop env circ garbled sender' c2)
          else if op = OP_RESULT then handle_RESULT circ garbled c1
          else msg_loop env circ garbled sender c1)"
  by pat_completeness auto
termination
proof (relation "measure (\<lambda>(env, circ, garbled, sender, c). length (inb c))")
  show "wf (measure (\<lambda>(env :: ('s, 'x) Env, circ :: Circuit, garbled :: Garbled, sender :: 's, c). length (inb c)))"
    by simp
next
  fix env :: "('s, 'x) Env" and circ :: Circuit and garbled :: Garbled and sender :: 's
    and c x1 c1 op x1a c2 sender'
  assume r: "(x1, c1) = receiveUint32 c" "x1 = Inr op"
    and h: "(x1a, c2) = handle_OT env sender c1"
  from r have "length (inb c1) < length (inb c)"
    using receiveUint32_inb [of c op c1] by simp
  moreover from h have "length (inb c2) \<le> length (inb c1)"
    using handle_OT_inb_le [of env sender c1] by (metis snd_conv)
  ultimately show "((env, circ, garbled, sender', c2), (env, circ, garbled, sender, c))
      \<in> measure (\<lambda>(env, circ, garbled, sender, c). length (inb c))"
    by simp
next
  fix env :: "('s, 'x) Env" and circ :: Circuit and garbled :: Garbled and sender :: 's
    and c x1 c1 op
  assume r: "(x1, c1) = receiveUint32 c" "x1 = Inr op"
  from r have "length (inb c1) < length (inb c)"
    using receiveUint32_inb [of c op c1] by simp
  then show "((env, circ, garbled, sender, c1), (env, circ, garbled, sender, c))
      \<in> measure (\<lambda>(env, circ, garbled, sender, c). length (inb c))"
    by simp
qed

declare msg_loop.simps [simp del]

subsection \<open>The function\<close>

text \<open>
  \<^verbatim>\<open>Garbler\<close>, from \<^verbatim>\<open>circ.Garble(key)\<close> to the return. Every \<^verbatim>\<open>return nil, err\<close> of the
  source is a branch \<open>Returned None (Some e)\<close>; the result of \<^verbatim>\<open>conn.Flush()\<close> is
  dropped, as in the source.
\<close>

definition Garbler :: "('s, 'x) Env \<Rightarrow> Conn \<Rightarrow> Circuit \<Rightarrow> int option list \<Rightarrow> bytes \<Rightarrow> outcome \<times> Conn" where
  "Garbler env c circ inputs key =
     (case Garble env circ key of
        Inl e \<Rightarrow> (Returned None (Some e), c)
      | Inr garbled \<Rightarrow>
     (case send_tables c 0 (Gates garbled) of
        (Some e, c1) \<Rightarrow> (Returned None (Some e), c1)
      | (None, c1) \<Rightarrow>
     (case select_inputs (Wires garbled) inputs 0 0 (N1 circ) of
        None \<Rightarrow> (Panicked, c1)
      | Some n1 \<Rightarrow>
     (case send_rows c1 n1 of
        (Some e, c2) \<Rightarrow> (Returned None (Some e), c2)
      | (None, c2) \<Rightarrow>
     (case NewSender env 2048 (Wires garbled) of
        Inl e \<Rightarrow> (Returned None (Some e), c2)
      | Inr sender \<Rightarrow>
     (case PublicKey env sender of (pubN, pubE) \<Rightarrow>
     (case sendData c2 pubN of
        (Some e, c3) \<Rightarrow> (Returned None (Some e), c3)
      | (None, c3) \<Rightarrow>
     (case sendUint32 c3 pubE of
        (Some e, c4) \<Rightarrow> (Returned None (Some e), c4)
      | (None, c4) \<Rightarrow> msg_loop env circ garbled sender (snd (Flush_conn c4))))))))))"

subsection \<open>A sample session\<close>

text \<open>
  A circuit with one gate of three table rows and three wires: wire 0 is the Garbler's
  input, wire 1 the Evaluator's, wire 2 the output. The collaborators are stand-ins
  that return fixed values: they serve to run the function on concrete sessions, and
  are no implementation of garbling or of oblivious transfer.
\<close>

definition sample_wires :: "Wire list" where
  "sample_wires =
     [\<lparr>Label0 = [0x10], Label1 = [0x11]\<rparr>,
      \<lparr>Label0 = [0x20], Label1 = [0x21]\<rparr>,
      \<lparr>Label0 = [0x30], Label1 = [0x31]\<rparr>]"

definition sample_garbled :: Garbled where
  "sample_garbled = \<lparr>Wires = sample_wires, Gates = [[[0xA1], [0xA2], [0xA3]]]\<rparr>"

definition sample_circ :: Circuit where
  "sample_circ = \<lparr>NumWires = 3, N1 = [\<lparr>Size = 1\<rparr>], N2 = [\<lparr>Size = 1\<rparr>], N3 = [\<lparr>Size = 1\<rparr>]\<rparr>"

definition sample_env :: "(Wire list, Wire \<times> bytes) Env" where
  "sample_env =
     \<lparr>Garble = (\<lambda>circ key. Inr sample_garbled),
      NewSender = (\<lambda>bits ws. Inr ws),
      PublicKey = (\<lambda>s. ([0x0D], 3)),
      NewTransfer = (\<lambda>s b. if b < length s then Inr ((s ! b, []), s) else Inl OTFailed),
      RandomMessages = (\<lambda>x. ([0x01], [0x02])),
      ReceiveV = (\<lambda>x v. (fst x, v)),
      Messages = (\<lambda>x. Inr (Label0 (fst x), Label1 (fst x)))\<rparr>"

text \<open>A connection that holds the peer's bytes \<open>bs\<close> and whose writes fail as \<open>fs\<close> says.\<close>

definition conn_of :: "bytes \<Rightarrow> bool list \<Rightarrow> Conn" where
  "conn_of bs fs = \<lparr>inb = bs, trace = [], wfail = fs\<rparr>"

text \<open>
  What the Garbler sends in the sample session before it enters the message loop, for
  the input 1: the table of gate 0, the label for 1 of wire 0, the key.
\<close>

definition sample_handshake :: "event list" where
  "sample_handshake =
     [SendUint32 0, SendUint32 3, SendData [0xA1], SendData [0xA2], SendData [0xA3],
      SendData [0x11], SendData [0x0D], SendUint32 3, Flush]"

text \<open>
  Three streams of the peer: the result request at once with the label for 1 of the
  output wire; one transfer round for bit index 1 and then the result request; the
  result request with a label that belongs to no wire.
\<close>

definition result_bytes :: bytes where
  "result_bytes = [0,0,0,2, 0,0,0,1,0x31]"






section \<open>The protocol, as described\<close>

text \<open>
  The stream of the garbled tables as the protocol describes it: for each gate in order,
  counted from \<open>gid\<close>, the gate id, the number of rows and then the rows.
\<close>

definition table_events :: "nat \<Rightarrow> bytes list list \<Rightarrow> event list" where
  "table_events gid gates =
     concat (map (\<lambda>(g, rows). SendUint32 g # SendUint32 (length rows) # map SendData rows)
                 (enumerate gid gates))"

text \<open>
  A sending step \<open>rc\<close> that started at \<open>c\<close> and was to send \<open>E\<close>: it read nothing, and it
  either sent all of \<open>E\<close> or failed with \<open>TransportClosed\<close> after a proper prefix of it.
\<close>

definition sends :: "event list \<Rightarrow> Conn \<Rightarrow> error option \<times> Conn \<Rightarrow> bool" where
  "sends E c rc =
     (inb (snd rc) = inb c \<and>
      (case fst rc of
         None \<Rightarrow> trace (snd rc) = trace c @ E
       | Some e \<Rightarrow> e = TransportClosed \<and> (\<exists>P. strict_prefix P E \<and> trace (snd rc) = trace c @ P)))"

text \<open>A flush, whether it succeeded or not.\<close>

definition is_flush :: "event \<Rightarrow> bool" where
  "is_flush e = (e = Flush \<or> e = FlushError)"

text \<open>
  The message loop as the protocol describes it, a state machine over the events: in
  \<open>Idle\<close> an opcode is read; an oblivious-transfer round reads the bit index, sends
  \<open>x0\<close> and \<open>x1\<close>, flushes, reads \<open>v\<close>, sends \<open>m0'\<close> and \<open>m1'\<close> and flushes; the
  result reads \<open>n\<close> labels, sends the integer and flushes. \<open>run\<close> is \<open>None\<close> when an
  event comes out of turn.
\<close>

datatype phase =
    Idle | OT_bit | OT_x0 | OT_x1 | OT_flush1 | OT_v | OT_m0 | OT_m1 | OT_flush2
  | Res nat | Res_flush | Done

definition step :: "nat \<Rightarrow> phase \<Rightarrow> event \<Rightarrow> phase option" where
  "step n p e =
     (case p of
        Idle \<Rightarrow> (case e of
            RecvUint32 op \<Rightarrow>
              Some (if op = OP_OT then OT_bit else if op = OP_RESULT then Res n else Idle)
          | _ \<Rightarrow> None)
      | OT_bit \<Rightarrow> (case e of RecvUint32 b \<Rightarrow> Some OT_x0 | _ \<Rightarrow> None)
      | OT_x0 \<Rightarrow> (case e of SendData x0 \<Rightarrow> Some OT_x1 | _ \<Rightarrow> None)
      | OT_x1 \<Rightarrow> (case e of SendData x1 \<Rightarrow> Some OT_flush1 | _ \<Rightarrow> None)
      | OT_flush1 \<Rightarrow> (case e of Flush \<Rightarrow> Some OT_v | FlushError \<Rightarrow> Some OT_v | _ \<Rightarrow> None)
      | OT_v \<Rightarrow> (case e of RecvData v \<Rightarrow> Some OT_m0 | _ \<Rightarrow> None)
      | OT_m0 \<Rightarrow> (case e of SendData m0 \<Rightarrow> Some OT_m1 | _ \<Rightarrow> None)
      | OT_m1 \<Rightarrow> (case e of SendData m1 \<Rightarrow> Some OT_flush2 | _ \<Rightarrow> None)
      | OT_flush2 \<Rightarrow> (case e of Flush \<Rightarrow> Some Idle | FlushError \<Rightarrow> Some Idle | _ \<Rightarrow> None)
      | Res k \<Rightarrow> (case e of
            RecvData l \<Rightarrow> (case k of 0 \<Rightarrow> None | Suc k' \<Rightarrow> Some (Res k'))
          | SendData r \<Rightarrow> (case k of 0 \<Rightarrow> Some Res_flush | Suc k' \<Rightarrow> None)
          | _ \<Rightarrow> None)
      | Res_flush \<Rightarrow> (case e of Flush \<Rightarrow> Some Done | FlushError \<Rightarrow> Some Done | _ \<Rightarrow> None)
      | Done \<Rightarrow> None)"

fun run :: "nat \<Rightarrow> phase \<Rightarrow> event list \<Rightarrow> phase option" where
  "run n p [] = Some p"
| "run n p (e # es) = (case step n p e of None \<Rightarrow> None | Some p' \<Rightarrow> run n p' es)"

text \<open>
  The integer \<open>r\<close> is what the labels decode to: bit \<open>j\<close> of \<open>r\<close> is the bit that label \<open>j\<close>
  stands for on output wire \<open>j\<close>, and \<open>r\<close> has no other bits.
\<close>

definition decoded :: "Circuit \<Rightarrow> Garbled \<Rightarrow> bytes list \<Rightarrow> int \<Rightarrow> bool" where
  "decoded circ g labels r =
     ((\<forall>j<length labels. \<exists>w. output_wire circ g j = Some w
          \<and> decode_label w (labels ! j) = Some (if bit r j then 1 else 0))
      \<and> take_bit (length labels) r = r)"





section \<open>Auxiliary lemmas\<close>

lemma table_events_Nil: "table_events gid [] = []"
  by (simp add: table_events_def)

lemma table_events_Cons:
  "table_events gid (rows # gates) =
     SendUint32 gid # SendUint32 (length rows) # map SendData rows @ table_events (Suc gid) gates"
  by (simp add: table_events_def)

lemma sends_sendUint32: "sends [SendUint32 v] c (sendUint32 c v)"
  by (simp add: sends_def sendUint32_def written_def)

lemma sends_sendData: "sends [SendData d] c (sendData c d)"
  by (simp add: sends_def sendData_def written_def)

lemma sends_ok: "sends E c (None, c') \<Longrightarrow> inb c' = inb c \<and> trace c' = trace c @ E"
  by (simp add: sends_def)

lemma sends_err:
  "sends E c (Some e, c') \<Longrightarrow>
     e = TransportClosed \<and> inb c' = inb c \<and> (\<exists>P. strict_prefix P E \<and> trace c' = trace c @ P)"
  by (simp add: sends_def)

lemma sends_seq:
  assumes "sends E1 c (r1, c1)" and "sends E2 c1 rc2"
  shows "sends (E1 @ E2) c (case r1 of Some e \<Rightarrow> (Some e, c1) | None \<Rightarrow> rc2)"
proof (cases r1)
  case None
  with assms show ?thesis
    by (cases rc2) (auto simp: sends_def strict_prefix_def split: option.splits)
next
  case (Some e)
  with assms(1) obtain P where "strict_prefix P E1" "trace c1 = trace c @ P" "e = TransportClosed" "inb c1 = inb c"
    by (auto simp: sends_def)
  moreover have "strict_prefix P (E1 @ E2)"
    using \<open>strict_prefix P E1\<close> by (auto simp: strict_prefix_def prefix_def)
  ultimately show ?thesis using Some by (auto simp: sends_def)
qed

lemma sends_send_rows: "sends (map SendData ds) c (send_rows c ds)"
proof (induction ds arbitrary: c)
  case Nil
  show ?case by (simp add: sends_def)
next
  case (Cons d ds)
  obtain r1 c1 where s: "sendData c d = (r1, c1)" by (cases "sendData c d")
  have "sends [SendData d] c (r1, c1)"
    using sends_sendData [of d c] s by simp
  from sends_seq [OF this Cons.IH [of c1]]
  show ?case using s by (simp split: option.splits)
qed

lemma sends_send_tables: "sends (table_events gid gates) c (send_tables c gid gates)"
proof (induction gates arbitrary: c gid)
  case Nil
  show ?case by (simp add: sends_def table_events_Nil)
next
  case (Cons rows gates)
  obtain r1 c1 where s1: "sendUint32 c gid = (r1, c1)" by (cases "sendUint32 c gid")
  obtain r2 c2 where s2: "sendUint32 c1 (length rows) = (r2, c2)" by (cases "sendUint32 c1 (length rows)")
  obtain r3 c3 where s3: "send_rows c2 rows = (r3, c3)" by (cases "send_rows c2 rows")
  have e1: "sends [SendUint32 gid] c (r1, c1)"
    using sends_sendUint32 [of gid c] s1 by simp
  have e2: "sends [SendUint32 (length rows)] c1 (r2, c2)"
    using sends_sendUint32 [of "length rows" c1] s2 by simp
  have e3: "sends (map SendData rows) c2 (r3, c3)"
    using sends_send_rows [of rows c2] s3 by simp
  note a = sends_seq [OF e3 Cons.IH [of "Suc gid" c3]]
  note b = sends_seq [OF e2 a]
  note d = sends_seq [OF e1 b]
  show ?case using d s1 s2 s3 by (simp add: table_events_Cons split: option.splits)
qed

lemma run_append:
  "run n p (D1 @ D2) = (case run n p D1 of None \<Rightarrow> None | Some p' \<Rightarrow> run n p' D2)"
  by (induction D1 arbitrary: p) (auto split: option.splits)

lemma sendData_cases:
  assumes "sendData c d = (r, c')"
  obtains (ok) "r = None" "trace c' = trace c @ [SendData d]" "inb c' = inb c"
    | (failed) "r = Some TransportClosed" "trace c' = trace c" "inb c' = inb c"
  using assms by (auto simp: sendData_def written_def split: if_splits)

lemma sendUint32_cases:
  assumes "sendUint32 c v = (r, c')"
  obtains (ok) "r = None" "trace c' = trace c @ [SendUint32 v]" "inb c' = inb c"
    | (failed) "r = Some TransportClosed" "trace c' = trace c" "inb c' = inb c"
  using assms by (auto simp: sendUint32_def written_def split: if_splits)

lemma Flush_conn_trace:
  "\<exists>fl. is_flush fl \<and> trace (snd (Flush_conn c)) = trace c @ [fl]"
  by (simp add: Flush_conn_def is_flush_def)

lemma receiveData_cases:
  assumes "receiveData c = (r, c')"
  obtains (ok) v where "r = Inr v" "trace c' = trace c @ [RecvData v]"
    | (failed) "r = Inl TransportClosed" "c' = c"
  using assms by (auto simp: receiveData_def split: option.splits if_splits)

lemma receiveUint32_cases:
  assumes "receiveUint32 c = (r, c')"
  obtains (ok) v where "r = Inr v" "trace c' = trace c @ [RecvUint32 v]"
    | (failed) "r = Inl TransportClosed" "c' = c"
  using assms by (auto simp: receiveUint32_def split: option.splits if_splits)

lemma step_simps:
  "step n Idle (RecvUint32 op) =
     Some (if op = OP_OT then OT_bit else if op = OP_RESULT then Res n else Idle)"
  "step n OT_bit (RecvUint32 b) = Some OT_x0"
  "step n OT_x0 (SendData x0) = Some OT_x1"
  "step n OT_x1 (SendData x1) = Some OT_flush1"
  "step n OT_v (RecvData v) = Some OT_m0"
  "step n OT_m0 (SendData m0) = Some OT_m1"
  "step n OT_m1 (SendData m1) = Some OT_flush2"
  "step n (Res (Suc k)) (RecvData l) = Some (Res k)"
  "step n (Res 0) (SendData r) = Some Res_flush"
  by (simp_all add: step_def)

lemma step_flush: "is_flush fl \<Longrightarrow> step n OT_flush1 fl = Some OT_v"
  "is_flush fl \<Longrightarrow> step n OT_flush2 fl = Some Idle"
  "is_flush fl \<Longrightarrow> step n Res_flush fl = Some Done"
  by (auto simp: is_flush_def step_def)

lemma run_append_Some: "run n p D1 = Some q \<Longrightarrow> run n p (D1 @ D2) = run n q D2"
  by (simp add: run_append)

lemma handle_OT_run:
  assumes "handle_OT env sender c = (r, c')"
  shows "\<exists>D. trace c' = trace c @ D \<and>
           (case r of Inr s' \<Rightarrow> run n OT_bit D = Some Idle | Inl e \<Rightarrow> run n OT_bit D \<noteq> None)"
proof -
  obtain f1 where f1: "\<And>c. is_flush (f1 c) \<and> trace (snd (Flush_conn c)) = trace c @ [f1 c]"
    using Flush_conn_trace by metis
  show ?thesis
    using assms unfolding handle_OT_def
    by (auto split: prod.splits sum.splits option.splits
           elim!: sendData_cases receiveData_cases receiveUint32_cases
           simp: f1 step_flush step_simps)
qed

lemma handle_OT_round:
  assumes "handle_OT env sender c = (Inr sender', c')"
  shows "\<exists>b xfer v m fl1 fl2.
           NewTransfer env sender b = Inr (xfer, sender')
         \<and> Messages env (ReceiveV env xfer v) = Inr m
         \<and> is_flush fl1 \<and> is_flush fl2
         \<and> trace c' = trace c @
              [RecvUint32 b,
               SendData (fst (RandomMessages env xfer)), SendData (snd (RandomMessages env xfer)), fl1,
               RecvData v,
               SendData (fst m), SendData (snd m), fl2]"
proof -
  obtain f1 where f1: "\<And>c. is_flush (f1 c) \<and> trace (snd (Flush_conn c)) = trace c @ [f1 c]"
    using Flush_conn_trace by metis
  show ?thesis
    using assms unfolding handle_OT_def
    by (auto split: prod.splits sum.splits option.splits
           elim!: sendData_cases receiveData_cases receiveUint32_cases
           simp: f1)
qed

lemma bit_SetBit: "b \<le> 1 \<Longrightarrow> bit (SetBit x i b) m = (if m = i then b = 1 else bit x m)"
  by (auto simp: SetBit_def bit_set_bit_iff bit_unset_bit_iff)

lemma decode_label_le: "decode_label w l = Some b \<Longrightarrow> b \<le> 1"
  by (auto simp: decode_label_def split: if_splits)


lemma decode_outputs_spec:
  assumes "decode_outputs circ g c i k r0 = (res, c')"
  shows "\<exists>labels. trace c' = trace c @ map RecvData labels \<and> length labels \<le> k
           \<and> (\<forall>j<length labels. \<forall>w. output_wire circ g (i + j) = Some w \<longrightarrow>
                  decode_label w (labels ! j) = None \<longrightarrow>
                  res = Inl (Returned None (Some (UnknownLabel (labels ! j) (i + j)))))
           \<and> (case res of
                 Inl out \<Rightarrow> out = Panicked \<or> (\<exists>e. out = Returned None (Some e))
               | Inr r \<Rightarrow> length labels = k
                    \<and> (\<forall>j<k. \<exists>w. output_wire circ g (i + j) = Some w
                           \<and> decode_label w (labels ! j) = Some (if bit r (i + j) then 1 else 0))
                    \<and> (\<forall>m. m < i \<or> i + k \<le> m \<longrightarrow> bit r m = bit r0 m))"
  using assms
proof (induction k arbitrary: c i r0)
  case 0
  then show ?case by (intro exI [of _ "[]"]) auto
next
  case (Suc k)
  obtain x c1 where rd: "receiveData c = (x, c1)" by (cases "receiveData c")
  from rd show ?case
  proof (cases rule: receiveData_cases)
    case failed
    with Suc.prems rd show ?thesis by (intro exI [of _ "[]"]) auto
  next
    case (ok v)
    show ?thesis
    proof (cases "output_wire circ g i")
      case None
      with Suc.prems rd ok show ?thesis by (intro exI [of _ "[v]"]) auto
    next
      case (Some w)
      show ?thesis
      proof (cases "decode_label w v")
        case None
        with Suc.prems rd ok Some show ?thesis by (intro exI [of _ "[v]"]) auto
      next
        case b: (Some b)
        with Suc.prems rd ok Some
        have rec: "decode_outputs circ g c1 (Suc i) k (SetBit r0 i b) = (res, c')" by simp
        from Suc.IH [OF rec] obtain ls where
          t: "trace c' = trace c1 @ map RecvData ls" and len: "length ls \<le> k"
          and mis: "\<forall>j<length ls. \<forall>w. output_wire circ g (Suc i + j) = Some w \<longrightarrow>
                  decode_label w (ls ! j) = None \<longrightarrow>
                  res = Inl (Returned None (Some (UnknownLabel (ls ! j) (Suc i + j))))"
          and fin: "(case res of
                 Inl out \<Rightarrow> out = Panicked \<or> (\<exists>e. out = Returned None (Some e))
               | Inr r \<Rightarrow> length ls = k
                    \<and> (\<forall>j<k. \<exists>w. output_wire circ g (Suc i + j) = Some w
                           \<and> decode_label w (ls ! j) = Some (if bit r (Suc i + j) then 1 else 0))
                    \<and> (\<forall>m. m < Suc i \<or> Suc i + k \<le> m \<longrightarrow> bit r m = bit (SetBit r0 i b) m))"
          by blast
        have b1: "b \<le> 1" using b by (rule decode_label_le)
        have "trace c' = trace c @ map RecvData (v # ls)" using t ok by simp
        moreover have "length (v # ls) \<le> Suc k" using len by simp
        moreover have "\<forall>j<length (v # ls). \<forall>w. output_wire circ g (i + j) = Some w \<longrightarrow>
                  decode_label w ((v # ls) ! j) = None \<longrightarrow>
                  res = Inl (Returned None (Some (UnknownLabel ((v # ls) ! j) (i + j))))"
        proof (intro allI impI)
          fix j w'
          assume j: "j < length (v # ls)" and w': "output_wire circ g (i + j) = Some w'"
            and d: "decode_label w' ((v # ls) ! j) = None"
          show "res = Inl (Returned None (Some (UnknownLabel ((v # ls) ! j) (i + j))))"
          proof (cases j)
            case 0
            with w' d Some b show ?thesis by simp
          next
            case (Suc j')
            with j w' d mis show ?thesis by simp
          qed
        qed
        moreover have "(case res of
                 Inl out \<Rightarrow> out = Panicked \<or> (\<exists>e. out = Returned None (Some e))
               | Inr r \<Rightarrow> length (v # ls) = Suc k
                    \<and> (\<forall>j<Suc k. \<exists>w. output_wire circ g (i + j) = Some w
                           \<and> decode_label w ((v # ls) ! j) = Some (if bit r (i + j) then 1 else 0))
                    \<and> (\<forall>m. m < i \<or> i + Suc k \<le> m \<longrightarrow> bit r m = bit r0 m))"
        proof (cases res)
          case (Inl out)
          with fin show ?thesis by simp
        next
          case (Inr r)
          with fin have l: "length ls = k"
            and dec: "\<forall>j<k. \<exists>w. output_wire circ g (Suc i + j) = Some w
                           \<and> decode_label w (ls ! j) = Some (if bit r (Suc i + j) then 1 else 0)"
            and same: "\<forall>m. m < Suc i \<or> Suc i + k \<le> m \<longrightarrow> bit r m = bit (SetBit r0 i b) m"
            by simp_all
          have bi: "bit r i = (b = 1)"
            using same bit_SetBit [OF b1, of r0 i i] by simp
          have d0: "decode_label w v = Some (if bit r i then 1 else 0)"
            using b b1 bi by auto
          have "\<forall>j<Suc k. \<exists>w. output_wire circ g (i + j) = Some w
                           \<and> decode_label w ((v # ls) ! j) = Some (if bit r (i + j) then 1 else 0)"
          proof (intro allI impI)
            fix j assume "j < Suc k"
            show "\<exists>w. output_wire circ g (i + j) = Some w
                           \<and> decode_label w ((v # ls) ! j) = Some (if bit r (i + j) then 1 else 0)"
            proof (cases j)
              case 0
              with Some d0 show ?thesis by simp
            next
              case (Suc j')
              with \<open>j < Suc k\<close> dec show ?thesis by simp
            qed
          qed
          moreover have "\<forall>m. m < i \<or> i + Suc k \<le> m \<longrightarrow> bit r m = bit r0 m"
            using same bit_SetBit [OF b1, of r0 i] by auto
          ultimately show ?thesis using Inr l by simp
        qed
        ultimately show ?thesis by blast
      qed
    qed
  qed
qed

lemma handle_RESULT_cases:
  assumes "handle_RESULT circ g c = (out, c')"
  obtains (result) labels r fl where
      "out = Returned (Some (Split (N3 circ) r)) None" "is_flush fl"
      "trace c' = trace c @ map RecvData labels @ [SendData (BigInt_Bytes r), fl]"
      "length labels = IO_Size (N3 circ)" "decoded circ g labels r"
    | (failed) labels where
      "out = Panicked \<or> (\<exists>e. out = Returned None (Some e))"
      "trace c' = trace c @ map RecvData labels" "length labels \<le> IO_Size (N3 circ)"
      "\<forall>j<length labels. \<forall>w. output_wire circ g j = Some w \<longrightarrow>
          decode_label w (labels ! j) = None \<longrightarrow>
          out = Returned None (Some (UnknownLabel (labels ! j) j))"
proof -
  obtain res c1 where d: "decode_outputs circ g c 0 (IO_Size (N3 circ)) 0 = (res, c1)"
    by (cases "decode_outputs circ g c 0 (IO_Size (N3 circ)) 0")
  have "\<exists>labels. trace c1 = trace c @ map RecvData labels \<and> length labels \<le> IO_Size (N3 circ)
      \<and> (\<forall>j<length labels. \<forall>w. output_wire circ g j = Some w \<longrightarrow>
                  decode_label w (labels ! j) = None \<longrightarrow>
                  res = Inl (Returned None (Some (UnknownLabel (labels ! j) j))))
      \<and> (case res of
                 Inl out \<Rightarrow> out = Panicked \<or> (\<exists>e. out = Returned None (Some e))
               | Inr r \<Rightarrow> length labels = IO_Size (N3 circ)
                    \<and> (\<forall>j<IO_Size (N3 circ). \<exists>w. output_wire circ g j = Some w
                           \<and> decode_label w (labels ! j) = Some (if bit r j then 1 else 0))
                    \<and> (\<forall>m. IO_Size (N3 circ) \<le> m \<longrightarrow> \<not> bit r m))"
    using decode_outputs_spec [OF d] by (cases res) simp_all
  then obtain labels where
    t: "trace c1 = trace c @ map RecvData labels" and len: "length labels \<le> IO_Size (N3 circ)"
    and mis: "\<forall>j<length labels. \<forall>w. output_wire circ g j = Some w \<longrightarrow>
                  decode_label w (labels ! j) = None \<longrightarrow>
                  res = Inl (Returned None (Some (UnknownLabel (labels ! j) j)))"
    and fin: "(case res of
                 Inl out \<Rightarrow> out = Panicked \<or> (\<exists>e. out = Returned None (Some e))
               | Inr r \<Rightarrow> length labels = IO_Size (N3 circ)
                    \<and> (\<forall>j<IO_Size (N3 circ). \<exists>w. output_wire circ g j = Some w
                           \<and> decode_label w (labels ! j) = Some (if bit r j then 1 else 0))
                    \<and> (\<forall>m. IO_Size (N3 circ) \<le> m \<longrightarrow> \<not> bit r m))"
    by blast
  show thesis
  proof (cases res)
    case (Inl o1)
    with d assms have "out = o1" "c' = c1" by (simp_all add: handle_RESULT_def)
    with Inl t len mis fin show thesis by (intro failed [of labels]) auto
  next
    case (Inr r)
    with fin have l: "length labels = IO_Size (N3 circ)"
      and dec: "\<forall>j<IO_Size (N3 circ). \<exists>w. output_wire circ g j = Some w
                           \<and> decode_label w (labels ! j) = Some (if bit r j then 1 else 0)"
      and hi: "\<forall>m. IO_Size (N3 circ) \<le> m \<longrightarrow> \<not> bit r m"
      by simp_all
    have tb: "take_bit (length labels) r = r"
      using hi l by (intro bit_eqI) (auto simp: bit_take_bit_iff not_le [symmetric])
    have dd: "decoded circ g labels r"
      using dec l tb by (simp add: decoded_def)
    obtain x c2 where sd: "sendData c1 (BigInt_Bytes r) = (x, c2)"
      by (cases "sendData c1 (BigInt_Bytes r)")
    from sd show thesis
    proof (cases rule: sendData_cases)
      case ok
      obtain fl where fl: "is_flush fl" "trace (snd (Flush_conn c2)) = trace c2 @ [fl]"
        using Flush_conn_trace by blast
      from ok sd d Inr assms have "out = Returned (Some (Split (N3 circ) r)) None"
        "c' = snd (Flush_conn c2)" by (auto simp: handle_RESULT_def)
      with fl ok t l dd show thesis by (intro result [of r fl labels]) auto
    next
      case failed': failed
      from failed' sd d Inr assms have "out = Returned None (Some TransportClosed)" "c' = c2"
        by (auto simp: handle_RESULT_def)
      moreover have "\<forall>j<length labels. \<forall>w. output_wire circ g j = Some w \<longrightarrow>
          decode_label w (labels ! j) = None \<longrightarrow>
          out = Returned None (Some (UnknownLabel (labels ! j) j))"
        using dec l by auto
      ultimately show thesis using failed' t len by (intro failed [of labels]) auto
    qed
  qed
qed

lemma msg_loop_spec:
  "msg_loop env circ g s c = (out, c') \<Longrightarrow>
     (\<exists>D cr. trace cr = trace c @ D @ [RecvUint32 OP_RESULT] \<and> run n Idle D = Some Idle
          \<and> handle_RESULT circ g cr = (out, c'))
     \<or> (\<exists>D e. out = Returned None (Some e) \<and> trace c' = trace c @ D \<and> run n Idle D \<noteq> None)"
proof (induction env circ g s c rule: msg_loop.induct)
  case (1 env circ g s c)
  obtain x c1 where rd: "receiveUint32 c = (x, c1)" by (cases "receiveUint32 c")
  from rd show ?case
  proof (cases rule: receiveUint32_cases)
    case failed
    with rd "1.prems" have "out = Returned None (Some TransportClosed)" "c' = c"
      by (simp_all add: msg_loop.simps [of env circ g s c])
    then show ?thesis by (intro disjI2 exI [of _ "[]"]) auto
  next
    case (ok op)
    consider (ot) "op = OP_OT" | (res) "op \<noteq> OP_OT" "op = OP_RESULT"
      | (other) "op \<noteq> OP_OT" "op \<noteq> OP_RESULT" by blast
    then show ?thesis
    proof cases
      case ot
      obtain y c2 where h: "handle_OT env s c1 = (y, c2)" by (cases "handle_OT env s c1")
      from handle_OT_run [OF h, of n] obtain D1 where
        D1: "trace c2 = trace c1 @ D1"
          "(case y of Inr s' \<Rightarrow> run n OT_bit D1 = Some Idle | Inl e \<Rightarrow> run n OT_bit D1 \<noteq> None)"
        by blast
      show ?thesis
      proof (cases y)
        case (Inl e)
        with rd ok ot h "1.prems" have "out = Returned None (Some e)" "c' = c2"
          by (simp_all add: msg_loop.simps [of env circ g s c])
        moreover have "run n Idle (RecvUint32 op # D1) \<noteq> None"
          using D1 Inl ot by (simp add: step_simps)
        ultimately show ?thesis
          using D1 ok by (intro disjI2 exI [of _ "RecvUint32 op # D1"]) auto
      next
        case (Inr s')
        with rd ok ot h "1.prems" have rec: "msg_loop env circ g s' c2 = (out, c')"
          by (simp add: msg_loop.simps [of env circ g s c])
        have r1: "run n Idle (RecvUint32 op # D1) = Some Idle"
          using D1 Inr ot by (simp add: step_simps)
        from "1.IH"(1) [OF rd [symmetric] ok(1) ot h [symmetric] Inr rec]
        show ?thesis
        proof (elim disjE exE conjE)
          fix D cr
          assume "trace cr = trace c2 @ D @ [RecvUint32 OP_RESULT]" "run n Idle D = Some Idle"
            "handle_RESULT circ g cr = (out, c')"
          then show ?thesis
            using D1 ok run_append_Some [OF r1, of D]
            by (intro disjI1 exI [of _ "(RecvUint32 op # D1) @ D"] exI [of _ cr]) simp
        next
          fix D e
          assume "out = Returned None (Some e)" "trace c' = trace c2 @ D" "run n Idle D \<noteq> None"
          then show ?thesis
            using D1 ok run_append_Some [OF r1, of D]
            by (intro disjI2 exI [of _ "(RecvUint32 op # D1) @ D"] exI [of _ e]) simp
        qed
      qed
    next
      case res
      with rd ok "1.prems" have "handle_RESULT circ g c1 = (out, c')"
        by (simp add: msg_loop.simps [of env circ g s c])
      then show ?thesis
        using ok res by (intro disjI1 exI [of _ "[]"] exI [of _ c1]) auto
    next
      case other
      with rd ok "1.prems" have rec: "msg_loop env circ g s c1 = (out, c')"
        by (simp add: msg_loop.simps [of env circ g s c])
      have r1: "run n Idle [RecvUint32 op] = Some Idle"
        using other by (simp add: step_simps)
      from "1.IH"(2) [OF rd [symmetric] ok(1) other rec]
      show ?thesis
      proof (elim disjE exE conjE)
        fix D cr
        assume "trace cr = trace c1 @ D @ [RecvUint32 OP_RESULT]" "run n Idle D = Some Idle"
          "handle_RESULT circ g cr = (out, c')"
        then show ?thesis
          using ok run_append_Some [OF r1, of D]
          by (intro disjI1 exI [of _ "[RecvUint32 op] @ D"] exI [of _ cr]) simp
      next
        fix D e
        assume "out = Returned None (Some e)" "trace c' = trace c1 @ D" "run n Idle D \<noteq> None"
        then show ?thesis
          using ok run_append_Some [OF r1, of D]
          by (intro disjI2 exI [of _ "[RecvUint32 op] @ D"] exI [of _ e]) simp
      qed
    qed
  qed
qed

lemma Garbler_cases [consumes 2, case_names tables_failed panic inputs_failed no_sender key_failed loop]:
  assumes g: "Garble env circ key = Inr g" and run: "Garbler env c circ inputs key = (out, c')"
  obtains
    (tables_failed) P where
      "out = Returned None (Some TransportClosed)"
      "strict_prefix P (table_events 0 (Gates g))" "trace c' = trace c @ P"
  | (panic)
      "select_inputs (Wires g) inputs 0 0 (N1 circ) = None" "out = Panicked"
      "trace c' = trace c @ table_events 0 (Gates g)"
  | (inputs_failed) n1 P where
      "select_inputs (Wires g) inputs 0 0 (N1 circ) = Some n1"
      "out = Returned None (Some TransportClosed)"
      "strict_prefix P (map SendData n1)"
      "trace c' = trace c @ table_events 0 (Gates g) @ P"
  | (no_sender) n1 e where
      "select_inputs (Wires g) inputs 0 0 (N1 circ) = Some n1"
      "NewSender env 2048 (Wires g) = Inl e" "out = Returned None (Some e)"
      "trace c' = trace c @ table_events 0 (Gates g) @ map SendData n1"
  | (key_failed) n1 s P where
      "select_inputs (Wires g) inputs 0 0 (N1 circ) = Some n1"
      "NewSender env 2048 (Wires g) = Inr s" "out = Returned None (Some TransportClosed)"
      "strict_prefix P [SendData (fst (PublicKey env s)), SendUint32 (snd (PublicKey env s))]"
      "trace c' = trace c @ table_events 0 (Gates g) @ map SendData n1 @ P"
  | (loop) n1 s fl c5 where
      "select_inputs (Wires g) inputs 0 0 (N1 circ) = Some n1"
      "NewSender env 2048 (Wires g) = Inr s" "is_flush fl"
      "trace c5 = trace c @ table_events 0 (Gates g) @ map SendData n1
                    @ [SendData (fst (PublicKey env s)), SendUint32 (snd (PublicKey env s)), fl]"
      "inb c5 = inb c"
      "msg_loop env circ g s c5 = (out, c')"
proof -
  let ?T = "table_events 0 (Gates g)"
  obtain r1 c1 where s1: "send_tables c 0 (Gates g) = (r1, c1)"
    by (cases "send_tables c 0 (Gates g)")
  have e1: "sends ?T c (r1, c1)" using sends_send_tables [of 0 "Gates g" c] s1 by simp
  show thesis
  proof (cases r1)
    case (Some e)
    with run g s1 have "out = Returned None (Some e)" "c' = c1" by (simp_all add: Garbler_def)
    with sends_err [OF e1 [unfolded Some]] show thesis by (auto intro: tables_failed)
  next
    case None
    note t1 = sends_ok [OF e1 [unfolded None]]
    show thesis
    proof (cases "select_inputs (Wires g) inputs 0 0 (N1 circ)")
      case n: None
      with run g s1 None have "out = Panicked" "c' = c1" by (simp_all add: Garbler_def)
      with t1 n show thesis by (auto intro: panic)
    next
      case n: (Some n1)
      obtain r2 c2 where s2: "send_rows c1 n1 = (r2, c2)" by (cases "send_rows c1 n1")
      have e2: "sends (map SendData n1) c1 (r2, c2)" using sends_send_rows [of n1 c1] s2 by simp
      show thesis
      proof (cases r2)
        case (Some e)
        with run g s1 None n s2 have "out = Returned None (Some e)" "c' = c2"
          by (simp_all add: Garbler_def)
        with sends_err [OF e2 [unfolded Some]] t1 n show thesis
          by (auto intro: inputs_failed)
      next
        case r2: None
        note t2 = sends_ok [OF e2 [unfolded r2]]
        show thesis
        proof (cases "NewSender env 2048 (Wires g)")
          case (Inl e)
          with run g s1 None n s2 r2 have "out = Returned None (Some e)" "c' = c2"
            by (simp_all add: Garbler_def)
          with t1 t2 n Inl show thesis by (auto intro: no_sender)
        next
          case (Inr s)
          obtain r3 c3 where s3: "sendData c2 (fst (PublicKey env s)) = (r3, c3)"
            by (cases "sendData c2 (fst (PublicKey env s))")
          obtain r4 c4 where s4: "sendUint32 c3 (snd (PublicKey env s)) = (r4, c4)"
            by (cases "sendUint32 c3 (snd (PublicKey env s))")
          have e3: "sends [SendData (fst (PublicKey env s))] c2 (r3, c3)"
            using sends_sendData [of "fst (PublicKey env s)" c2] s3 by simp
          have e4: "sends [SendUint32 (snd (PublicKey env s))] c3 (r4, c4)"
            using sends_sendUint32 [of "snd (PublicKey env s)" c3] s4 by simp
          have e34: "sends [SendData (fst (PublicKey env s)), SendUint32 (snd (PublicKey env s))] c2
                       (case r3 of Some e \<Rightarrow> (Some e, c3) | None \<Rightarrow> (r4, c4))"
            using sends_seq [OF e3 e4] by simp
          have G: "Garbler env c circ inputs key =
                 (case r3 of Some e \<Rightarrow> (Returned None (Some e), c3)
                  | None \<Rightarrow> (case r4 of Some e \<Rightarrow> (Returned None (Some e), c4)
                     | None \<Rightarrow> msg_loop env circ g s (snd (Flush_conn c4))))"
            using g s1 None n s2 r2 Inr s3 s4
            by (cases "PublicKey env s") (auto simp: Garbler_def split: option.splits)
          show thesis
          proof (cases "r3 = None \<and> r4 = None")
            case True
            with e34 have t4: "inb c4 = inb c2"
              "trace c4 = trace c2 @ [SendData (fst (PublicKey env s)), SendUint32 (snd (PublicKey env s))]"
              by (simp_all add: sends_def)
            obtain fl where fl: "is_flush fl" "trace (snd (Flush_conn c4)) = trace c4 @ [fl]"
              using Flush_conn_trace by blast
            from True G run have "msg_loop env circ g s (snd (Flush_conn c4)) = (out, c')" by simp
            with fl t1 t2 t4 n Inr show thesis
              by (intro loop [of n1 s fl "snd (Flush_conn c4)"]) (simp_all add: Flush_conn_inb)
          next
            case False
            then obtain e cf where f: "(case r3 of Some e \<Rightarrow> (Some e, c3) | None \<Rightarrow> (r4, c4)) = (Some e, cf)"
              and o: "Garbler env c circ inputs key = (Returned None (Some e), cf)"
              using G by (cases r3; cases r4) auto
            from sends_err [OF e34 [unfolded f]] o run t1 t2 n Inr show thesis
              by (auto intro: key_failed)
          qed
        qed
      qed
    qed
  qed
qed

lemma IO_Size_Cons: "IO_Size (a # io) = Size a + IO_Size io"
  by (simp add: IO_Size_def)


lemma select_bits_None:
  "length ws < w + n \<Longrightarrow> w \<le> length ws \<Longrightarrow> select_bits ws input w i n = None"
proof (induction n arbitrary: w i)
  case 0
  then show ?case by simp
next
  case (Suc n)
  show ?case
  proof (cases "w < length ws")
    case True
    then have "length ws < Suc w + n" "Suc w \<le> length ws" using Suc.prems by simp_all
    from Suc.IH [OF this] show ?thesis by (simp split: option.splits)
  next
    case False
    then have "wire_at ws (int w) = None" by (auto simp: wire_at_def)
    then show ?thesis by simp
  qed
qed




lemma select_inputs_None_gen:
  "length ws < w + IO_Size io \<Longrightarrow> w \<le> length ws \<Longrightarrow> select_inputs ws inputs idx w io = None"
proof (induction io arbitrary: w idx)
  case Nil
  then show ?case by (simp add: IO_Size_def)
next
  case (Cons a io)
  show ?case
  proof (cases "length ws < w + Size a")
    case True
    then show ?thesis using Cons.prems by (simp add: select_bits_None)
  next
    case False
    then have "length ws < (w + Size a) + IO_Size io" "w + Size a \<le> length ws"
      using Cons.prems by (simp_all add: IO_Size_Cons)
    from Cons.IH [OF this] show ?thesis by (simp split: option.splits)
  qed
qed

lemma select_inputs_None:
  "length ws < IO_Size io \<Longrightarrow> select_inputs ws inputs 0 0 io = None"
  using select_inputs_None_gen [of ws 0 io inputs 0] by simp





















lemma checked_failures_are_fatal:
  assumes run: "Garbler env c circ inputs key = (Returned r e, c')"
  shows "(e = None \<longrightarrow> r \<noteq> None) \<and> (e \<noteq> None \<longrightarrow> r = None)"
proof (cases "Garble env circ key")
  case (Inl e0)
  with run show ?thesis by (auto simp: Garbler_def)
next
  case (Inr g)
  from Inr run show ?thesis
  proof (cases rule: Garbler_cases)
    case (loop n1 s fl c5)
    from msg_loop_spec [OF loop(6), of 0] show ?thesis
    proof (elim disjE exE conjE)
      fix D cr
      assume "handle_RESULT circ g cr = (Returned r e, c')"
      then show ?thesis by (cases rule: handle_RESULT_cases) auto
    qed auto
  qed auto
qed

section \<open>Properties\<close>

subsection \<open>The result\<close>





subsection \<open>The order of the messages\<close>





subsection \<open>The inputs of the Garbler\<close>





subsection \<open>The result request at any point\<close>



subsection \<open>Failures\<close>

text \<open>
  Claim C8 says that every failure, a failed send among them, ends the session with an
  error and no result. The source checks every error but the one \<^verbatim>\<open>conn.Flush()\<close> returns
  (\<open>checked_failures_are_fatal\<close> above covers the checked ones). In the session below the
  last flush, the one that sends the result to the peer, fails: the Garbler returns
  the outputs and a \<^verbatim>\<open>nil\<close> error.
\<close>

theorem flush_error_not_fatal:
  "Garbler sample_env
      (conn_of result_bytes
         [False, False, False, False, False, False, False, False, False, False, True])
      sample_circ [Some 1] [] =
     (Returned (Some [1]) None,
      \<lparr>inb = [],
       trace = sample_handshake @ [RecvUint32 2, RecvData [0x31], SendData [1], FlushError],
       wfail = []\<rparr>)"
  by code_simp

subsection \<open>Opcodes outside the protocol\<close>

text \<open>
  Claim C7 says that an opcode that is neither \<^verbatim>\<open>OP_OT\<close> nor \<^verbatim>\<open>OP_RESULT\<close> makes the
  session fail with \<open>ProtocolError\<close>. The sample session below reads opcode 7, then
  \<^verbatim>\<open>OP_RESULT\<close> and the label of the output wire for 1, and returns the output with no
  error.
\<close>

theorem unknown_opcode_counterexample:
  "Garbler sample_env (conn_of [0,0,0,7, 0,0,0,2, 0,0,0,1,0x31] []) sample_circ [Some 1] [] =
     (Returned (Some [1]) None,
      \<lparr>inb = [],
       trace = [SendUint32 0, SendUint32 3, SendData [0xA1], SendData [0xA2], SendData [0xA3],
                SendData [0x11], SendData [0x0D], SendUint32 3, Flush,
                RecvUint32 7, RecvUint32 2, RecvData [0x31], SendData [1], Flush],
       wfail = []\<rparr>)"
  by code_simp

text \<open>
  Claim C7, amended: an opcode that is neither \<^verbatim>\<open>OP_OT\<close> nor \<^verbatim>\<open>OP_RESULT\<close> is skipped.
  The loop sends nothing, keeps the sender as it is and goes on with the next opcode,
  so the session ends as the rest of the peer's bytes decides.
\<close>

theorem unknown_opcode_skipped:
  assumes "receiveUint32 c = (Inr op, c1)" and "op \<noteq> OP_OT" and "op \<noteq> OP_RESULT"
  shows "msg_loop env circ garbled sender c = msg_loop env circ garbled sender c1
         \<and> trace c1 = trace c @ [RecvUint32 op] \<and> wfail c1 = wfail c"
proof -
  have "msg_loop env circ garbled sender c = msg_loop env circ garbled sender c1"
    using assms by (subst msg_loop.simps) simp
  moreover have "trace c1 = trace c @ [RecvUint32 op] \<and> wfail c1 = wfail c"
    using assms(1) by (auto simp: receiveUint32_def split: option.splits)
  ultimately show ?thesis by simp
qed

theorem unknown_opcode_skipped_witness:
  "receiveUint32 (conn_of [0,0,0,7, 0,0,0,2, 0,0,0,1,0x31] [])
     = (Inr 7, \<lparr>inb = [0,0,0,2, 0,0,0,1,0x31], trace = [RecvUint32 7], wfail = []\<rparr>)
   \<and> (7::nat) \<noteq> OP_OT \<and> (7::nat) \<noteq> OP_RESULT
   \<and> msg_loop sample_env sample_circ sample_garbled sample_wires
         (conn_of [0,0,0,7, 0,0,0,2, 0,0,0,1,0x31] [])
       = msg_loop sample_env sample_circ sample_garbled sample_wires
           \<lparr>inb = [0,0,0,2, 0,0,0,1,0x31], trace = [RecvUint32 7], wfail = []\<rparr>"
proof -
  have r: "receiveUint32 (conn_of [0,0,0,7, 0,0,0,2, 0,0,0,1,0x31] [])
     = (Inr 7, \<lparr>inb = [0,0,0,2, 0,0,0,1,0x31], trace = [RecvUint32 7], wfail = []\<rparr>)"
    by (simp add: receiveUint32_def read_u32_def be_uint32_def conn_of_def)
  have o: "(7::nat) \<noteq> OP_OT" "(7::nat) \<noteq> OP_RESULT"
    by (simp_all add: OP_OT_def OP_RESULT_def)
  show ?thesis
    using r o unknown_opcode_skipped [OF r o, of sample_env sample_circ sample_garbled sample_wires]
    by simp
qed

end
